theory Spec2Isabelle
  imports Main
begin

section \<open>Panel controller (useTogglePanel)\<close>

text \<open>
  The panel identifiers imported from the constants module. Their string values are not
  needed: the code only passes them to \<open>setActivePanel\<close>.
\<close>

datatype panel =
    SEARCH
  | RCMD
  | POS_PREDICTIONS
  | POS_ELEMENTS
  | DISAGREE_ELEMENTS
  | SUSPICIOUS_ELEMENTS
  | CONTRADICTIVE_ELEMENTS

text \<open>
  The seven \<open>useState\<close> visibility flags of the hook, together with the store's
  \<open>activePanel\<close> field that every activation dispatches to. The store field starts
  without a panel.
\<close>

record panels =
  toggleSearchPanel :: bool
  toggleRCMDPanel :: bool
  togglePosPredPanel :: bool
  togglePosElemPanel :: bool
  toggleDisagreeElemPanel :: bool
  toggleSuspiciousElemPanel :: bool
  toggleContrElemPanel :: bool
  activePanel :: "panel option"

definition setActivePanel :: "panel \<Rightarrow> panels \<Rightarrow> panels" where
  "setActivePanel p s = s\<lparr>activePanel := Some p\<rparr>"

definition setToggleSearchPanel :: "bool \<Rightarrow> panels \<Rightarrow> panels" where
  "setToggleSearchPanel b s = s\<lparr>toggleSearchPanel := b\<rparr>"

definition setToggleRCMDPanel :: "bool \<Rightarrow> panels \<Rightarrow> panels" where
  "setToggleRCMDPanel b s = s\<lparr>toggleRCMDPanel := b\<rparr>"

definition setTogglePosPredPanel :: "bool \<Rightarrow> panels \<Rightarrow> panels" where
  "setTogglePosPredPanel b s = s\<lparr>togglePosPredPanel := b\<rparr>"

definition setTogglePosElemPanel :: "bool \<Rightarrow> panels \<Rightarrow> panels" where
  "setTogglePosElemPanel b s = s\<lparr>togglePosElemPanel := b\<rparr>"

definition setToggleDisagreeElemPanel :: "bool \<Rightarrow> panels \<Rightarrow> panels" where
  "setToggleDisagreeElemPanel b s = s\<lparr>toggleDisagreeElemPanel := b\<rparr>"

definition setToggleSuspiciousElemPanel :: "bool \<Rightarrow> panels \<Rightarrow> panels" where
  "setToggleSuspiciousElemPanel b s = s\<lparr>toggleSuspiciousElemPanel := b\<rparr>"

definition setToggleContrElemPanel :: "bool \<Rightarrow> panels \<Rightarrow> panels" where
  "setToggleContrElemPanel b s = s\<lparr>toggleContrElemPanel := b\<rparr>"

text \<open>
  A handler is a closure over the flags of the render that created it: the negated flag it
  passes to its own setter is read from that render's state \<open>s\<close>, while the setter calls
  are queued and applied in the order written (\<open>run\<close> applies a queue from left to right).
  Focusing the text input in \<open>activateSearchPanel\<close> touches no modelled state.
\<close>

definition run :: "('s \<Rightarrow> 's) list \<Rightarrow> 's \<Rightarrow> 's" where
  "run q s = fold (\<lambda>f. f) q s"

definition activateSearchPanel :: "panels \<Rightarrow> panels" where
  "activateSearchPanel s = run
     [ setActivePanel SEARCH,
       setToggleSearchPanel (\<not> toggleSearchPanel s),
       setTogglePosPredPanel False,
       setToggleRCMDPanel False,
       setTogglePosElemPanel False,
       setToggleDisagreeElemPanel False,
       setToggleSuspiciousElemPanel False,
       setToggleContrElemPanel False ] s"

definition activateRecToLabelPanel :: "panels \<Rightarrow> panels" where
  "activateRecToLabelPanel s = run
     [ setActivePanel RCMD,
       setToggleSearchPanel False,
       setTogglePosPredPanel False,
       setTogglePosElemPanel False,
       setToggleDisagreeElemPanel False,
       setToggleSuspiciousElemPanel False,
       setToggleContrElemPanel False,
       setToggleRCMDPanel (\<not> toggleRCMDPanel s) ] s"

definition activatePosPredLabelPanel :: "panels \<Rightarrow> panels" where
  "activatePosPredLabelPanel s = run
     [ setActivePanel POS_PREDICTIONS,
       setToggleSearchPanel False,
       setToggleRCMDPanel False,
       setTogglePosElemPanel False,
       setToggleDisagreeElemPanel False,
       setToggleSuspiciousElemPanel False,
       setToggleContrElemPanel False,
       setTogglePosPredPanel (\<not> togglePosPredPanel s) ] s"

definition activatePosElemLabelPanel :: "panels \<Rightarrow> panels" where
  "activatePosElemLabelPanel s = run
     [ setActivePanel POS_ELEMENTS,
       setToggleSearchPanel False,
       setToggleRCMDPanel False,
       setTogglePosElemPanel False,
       setTogglePosPredPanel False,
       setToggleDisagreeElemPanel False,
       setToggleSuspiciousElemPanel False,
       setToggleContrElemPanel False,
       setTogglePosElemPanel (\<not> togglePosElemPanel s) ] s"

definition activateDisagreeElemLabelPanel :: "panels \<Rightarrow> panels" where
  "activateDisagreeElemLabelPanel s = run
     [ setActivePanel DISAGREE_ELEMENTS,
       setToggleSearchPanel False,
       setToggleRCMDPanel False,
       setTogglePosElemPanel False,
       setTogglePosPredPanel False,
       setTogglePosElemPanel False,
       setToggleSuspiciousElemPanel False,
       setToggleContrElemPanel False,
       setToggleDisagreeElemPanel (\<not> toggleDisagreeElemPanel s) ] s"

definition activateSuspiciousElemLabelPanel :: "panels \<Rightarrow> panels" where
  "activateSuspiciousElemLabelPanel s = run
     [ setActivePanel SUSPICIOUS_ELEMENTS,
       setToggleSearchPanel False,
       setToggleRCMDPanel False,
       setTogglePosElemPanel False,
       setTogglePosPredPanel False,
       setTogglePosElemPanel False,
       setToggleDisagreeElemPanel False,
       setToggleContrElemPanel False,
       setToggleSuspiciousElemPanel (\<not> toggleSuspiciousElemPanel s) ] s"

definition activateContrElemLabelPanel :: "panels \<Rightarrow> panels" where
  "activateContrElemLabelPanel s = run
     [ setActivePanel CONTRADICTIVE_ELEMENTS,
       setToggleSearchPanel False,
       setToggleRCMDPanel False,
       setTogglePosElemPanel False,
       setTogglePosPredPanel False,
       setTogglePosElemPanel False,
       setToggleDisagreeElemPanel False,
       setToggleSuspiciousElemPanel False,
       setToggleContrElemPanel (\<not> toggleContrElemPanel s) ] s"

text \<open>
  The hook returns each handler next to the flag of its panel; \<open>activate\<close> and
  \<open>visible\<close> index the two families by the panel identifier the handler dispatches.
\<close>

fun activate :: "panel \<Rightarrow> panels \<Rightarrow> panels" where
  "activate SEARCH = activateSearchPanel"
| "activate RCMD = activateRecToLabelPanel"
| "activate POS_PREDICTIONS = activatePosPredLabelPanel"
| "activate POS_ELEMENTS = activatePosElemLabelPanel"
| "activate DISAGREE_ELEMENTS = activateDisagreeElemLabelPanel"
| "activate SUSPICIOUS_ELEMENTS = activateSuspiciousElemLabelPanel"
| "activate CONTRADICTIVE_ELEMENTS = activateContrElemLabelPanel"

fun visible :: "panel \<Rightarrow> panels \<Rightarrow> bool" where
  "visible SEARCH = toggleSearchPanel"
| "visible RCMD = toggleRCMDPanel"
| "visible POS_PREDICTIONS = togglePosPredPanel"
| "visible POS_ELEMENTS = togglePosElemPanel"
| "visible DISAGREE_ELEMENTS = toggleDisagreeElemPanel"
| "visible SUSPICIOUS_ELEMENTS = toggleSuspiciousElemPanel"
| "visible CONTRADICTIVE_ELEMENTS = toggleContrElemPanel"

definition all_panels :: "panel list" where
  "all_panels = [SEARCH, RCMD, POS_PREDICTIONS, POS_ELEMENTS, DISAGREE_ELEMENTS,
     SUSPICIOUS_ELEMENTS, CONTRADICTIVE_ELEMENTS]"

definition shown :: "panels \<Rightarrow> panel list" where
  "shown s = filter (\<lambda>q. visible q s) all_panels"

subsection \<open>The two effects of the hook\<close>

text \<open>
  The hook instance as the renderer sees it: the hook's own state, the host component's
  \<open>open\<close> state written through \<open>setOpen\<close>, the length of the store's
  \<open>elementsToLabel\<close>, and for each \<open>useEffect\<close> the dependency values of its last run
  (\<open>None\<close> before the first render).
\<close>

record controller =
  hook :: panels
  open_flag :: bool
  elementsToLabel_length :: nat
  autoDeps :: "nat option"
  openDeps :: "bool list option"

text \<open>Body of the first effect, with dependency array \<open>[elementsToLabel.length]\<close>.\<close>

definition autoActivateEffect :: "nat \<Rightarrow> panels \<Rightarrow> panels" where
  "autoActivateEffect n s = (if n = 0 then activateSearchPanel s else activateRecToLabelPanel s)"

text \<open>
  Body of the second effect: the value it passes to \<open>setOpen\<close>, and its dependency
  array without \<open>setOpen\<close>, whose identity never changes.
\<close>

definition openEffect :: "panels \<Rightarrow> bool" where
  "openEffect s =
     (if toggleSearchPanel s \<or> toggleRCMDPanel s \<or> togglePosPredPanel s \<or> togglePosElemPanel s
         \<or> toggleDisagreeElemPanel s \<or> toggleSuspiciousElemPanel s \<or> toggleContrElemPanel s
      then True else False)"

definition openEffectDeps :: "panels \<Rightarrow> bool list" where
  "openEffectDeps s =
     [toggleRCMDPanel s, toggleSearchPanel s, togglePosPredPanel s, togglePosElemPanel s,
      toggleDisagreeElemPanel s, toggleSuspiciousElemPanel s, toggleContrElemPanel s]"

text \<open>
  One render followed by its effects. An effect runs when its dependency values differ from
  those of its last run; both effects are closures over the state \<open>s\<close> of this render, and
  the state they set is seen by the next render.
\<close>

definition commit :: "controller \<Rightarrow> controller" where
  "commit c =
     (let s = hook c; n = elementsToLabel_length c
      in \<lparr> hook = (if autoDeps c \<noteq> Some n then autoActivateEffect n s else s),
           open_flag = (if openDeps c \<noteq> Some (openEffectDeps s) then openEffect s else open_flag c),
           elementsToLabel_length = n,
           autoDeps = Some n,
           openDeps = Some (openEffectDeps s) \<rparr>)"

definition pending :: "controller \<Rightarrow> nat" where
  "pending c =
     (if autoDeps c \<noteq> Some (elementsToLabel_length c) then 2
      else if openDeps c \<noteq> Some (openEffectDeps (hook c)) then 1 else 0)"

text \<open>Rendering repeats for as long as a render's effects change anything.\<close>

function settle :: "controller \<Rightarrow> controller" where
  "settle c = (if commit c = c then c else settle (commit c))"
  by pat_completeness auto
termination
  apply (relation "measure pending")
   apply simp
  apply (simp add: pending_def)
  apply (simp add: commit_def Let_def)
  apply (auto split: if_splits)
  done

declare settle.simps [simp del]

definition initial_panels :: panels where
  "initial_panels =
     \<lparr> toggleSearchPanel = False, toggleRCMDPanel = False, togglePosPredPanel = False,
       togglePosElemPanel = False, toggleDisagreeElemPanel = False,
       toggleSuspiciousElemPanel = False, toggleContrElemPanel = False, activePanel = None \<rparr>"

definition mount :: "nat \<Rightarrow> controller" where
  "mount n = settle \<lparr> hook = initial_panels, open_flag = False, elementsToLabel_length = n,
     autoDeps = None, openDeps = None \<rparr>"

text \<open>
  What can happen to a mounted controller: the user clicks the button of a panel, or the
  store's \<open>elementsToLabel\<close> is replaced by a list of the given length.
\<close>

datatype ui_event = Click panel | ElementsToLabel nat

fun handle :: "ui_event \<Rightarrow> controller \<Rightarrow> controller" where
  "handle (Click p) c = settle (c\<lparr>hook := activate p (hook c)\<rparr>)"
| "handle (ElementsToLabel n) c = settle (c\<lparr>elementsToLabel_length := n\<rparr>)"

definition session :: "nat \<Rightarrow> ui_event list \<Rightarrow> controller" where
  "session n evs = fold handle evs (mount n)"

section \<open>Search navigator (useSearchElement)\<close>

subsection \<open>The string operations the click handler uses\<close>

text \<open>
  A string is the list of its code units. \<open>lastIndexOf\<close> for a search string of one
  unit: the greatest position holding the unit, or \<open>-1\<close> when it does not occur.
\<close>

fun lastIndexOf :: "'a list \<Rightarrow> 'a \<Rightarrow> int" where
  "lastIndexOf [] c = - 1"
| "lastIndexOf (x # xs) c =
     (let r = lastIndexOf xs c in if 0 \<le> r then r + 1 else if x = c then 0 else - 1)"

text \<open>
  \<open>slice\<close>: a negative position counts from the end and is clamped at 0, any other one is
  clamped at the length; a missing end is the length; an end before the start gives the
  empty string.
\<close>

definition clampIndex :: "nat \<Rightarrow> int \<Rightarrow> nat" where
  "clampIndex len k = (if k < 0 then nat (max (int len + k) 0) else min (nat k) len)"

definition slice :: "'a list \<Rightarrow> int \<Rightarrow> int option \<Rightarrow> 'a list" where
  "slice s start fin =
     (let len = length s;
          lo = clampIndex len start;
          hi = (case fin of None \<Rightarrow> len | Some e \<Rightarrow> clampIndex len e)
      in take (hi - lo) (drop lo s))"

text \<open>The first three statements of the handler after reading the identifier.\<close>

definition parse_id :: "string \<Rightarrow> string \<times> string" where
  "parse_id ident =
     (let lastIndex = lastIndexOf ident CHR ''-'';
          docid = slice ident 0 (Some lastIndex);
          index = slice ident (lastIndex + 1) None
      in (docid, index))"

subsection \<open>State and observable actions\<close>

text \<open>
  The store fields the hook selects. An index is kept as the string it becomes in
  \<open>'L' + index\<close>; \<open>curCategory\<close> is \<open>None\<close> for \<open>null\<close>.
\<close>

record workspace =
  curDocName :: string
  curCategory :: "string option"
  isDocLoaded :: bool
  focusedIndex :: string
  searchedIndex :: string

text \<open>
  What a render of the hook sees: the store, the hook's pending-scroll flag, and the ids of
  the elements in the page, which is all \<open>document.getElementById\<close> depends on.
\<close>

record search_view =
  store :: workspace
  isIsSearchActive :: bool
  rendered :: "string list"

text \<open>
  Every call with an effect outside the handler is an action of the trace: the dispatched
  store actions, the hook's own state setter, the scroll of an element, and the completion
  of the fetch with the document it brings.
\<close>

datatype action =
    SetSearchedIndex string
  | SetIsSearchActive bool
  | ScrollIntoView string
  | SetIsDocLoaded bool
  | FetchCertainDocument string string string
  | FetchCompleted string "string list"
  | SetFocusedState string

text \<open>
  Modelled from the spec: the reducers of the store slice, which is not part of the
  sources at hand. \<open>setSearchedIndex\<close> records the searched index, \<open>setFocusedState\<close> marks
  the element as focused, \<open>setIsDocLoaded\<close> sets the document-loaded flag, and a completed
  fetch makes the fetched document the displayed one. Issuing the fetch changes nothing
  by itself and scrolling changes no state.
\<close>

fun apply_action :: "action \<Rightarrow> search_view \<Rightarrow> search_view" where
  "apply_action (SetSearchedIndex i) v = v\<lparr>store := (store v)\<lparr>searchedIndex := i\<rparr>\<rparr>"
| "apply_action (SetIsSearchActive b) v = v\<lparr>isIsSearchActive := b\<rparr>"
| "apply_action (ScrollIntoView e) v = v"
| "apply_action (SetIsDocLoaded b) v = v\<lparr>store := (store v)\<lparr>isDocLoaded := b\<rparr>\<rparr>"
| "apply_action (FetchCertainDocument docid ident status) v = v"
| "apply_action (FetchCompleted docid elems) v =
     v\<lparr>store := (store v)\<lparr>curDocName := docid\<rparr>, rendered := elems\<rparr>"
| "apply_action (SetFocusedState i) v = v\<lparr>store := (store v)\<lparr>focusedIndex := i\<rparr>\<rparr>"

definition apply_actions :: "action list \<Rightarrow> search_view \<Rightarrow> search_view" where
  "apply_actions as v = fold apply_action as v"

subsection \<open>The hook's functions\<close>

definition getElementById :: "search_view \<Rightarrow> string \<Rightarrow> string option" where
  "getElementById v i = (if i \<in> set (rendered v) then Some i else None)"

definition scrollIntoElementView :: "string option \<Rightarrow> action list" where
  "scrollIntoElementView element = (case element of None \<Rightarrow> [] | Some e \<Rightarrow> [ScrollIntoView e])"

text \<open>The condition \<open>if (workspace.curCategory)\<close>: neither \<open>null\<close> nor the empty string.\<close>

definition category_selected :: "workspace \<Rightarrow> bool" where
  "category_selected w = (case curCategory w of None \<Rightarrow> False | Some c \<Rightarrow> c \<noteq> [])"

text \<open>
  The scroll effect. One of its dependencies, \<open>scrollIntoElementView\<close>, is a new function
  in every render, so the effect runs after every render.
\<close>

definition scrollEffect :: "search_view \<Rightarrow> action list" where
  "scrollEffect v =
     (if isIsSearchActive v \<and> isDocLoaded (store v) then
        (let element =
               (if category_selected (store v)
                then getElementById v (''L'' @ focusedIndex (store v))
                else getElementById v (''L'' @ searchedIndex (store v)))
         in scrollIntoElementView element @ [SetIsSearchActive False])
      else [])"

text \<open>
  The click handler, given the id of the clicked result. It returns the actions it performs
  before it returns and, when it issued a fetch, the actions of the callback it chained
  to the fetch with \<open>then\<close>.
\<close>

definition handleSearchPanelClick :: "string \<Rightarrow> search_view \<Rightarrow> action list \<times> action list option" where
  "handleSearchPanelClick ident v =
     (let (docid, index) = parse_id ident;
          element = getElementById v (''L'' @ index)
      in if docid \<noteq> curDocName (store v)
         then ([SetSearchedIndex index, SetIsSearchActive True] @ scrollIntoElementView element
                 @ [SetIsDocLoaded False, FetchCertainDocument docid ident ''switch''],
               Some [SetFocusedState index, SetIsDocLoaded True])
         else ([SetSearchedIndex index, SetIsSearchActive True] @ scrollIntoElementView element
                 @ [SetFocusedState index],
               None))"

subsection \<open>Running a click\<close>

text \<open>
  Renders follow state changes, and the scroll effect follows every render, until an
  effect changes nothing any more.
\<close>

function flushEffects :: "search_view \<Rightarrow> action list" where
  "flushEffects v =
     (if scrollEffect v = [] then [] else scrollEffect v @ flushEffects (apply_actions (scrollEffect v) v))"
  by pat_completeness auto
termination
  apply (relation "measure (\<lambda>v. if isIsSearchActive v then 1 else 0)")
   apply simp
  apply (simp add: scrollEffect_def scrollIntoElementView_def apply_actions_def Let_def
      split: if_splits option.splits)
  done

declare flushEffects.simps [simp del]

text \<open>
  State changes made inside an event handler are rendered together when the handler
  returns. Those made in a promise callback are rendered together as well when the
  renderer batches everywhere, and one by one otherwise.
\<close>

definition batched :: "action list \<Rightarrow> search_view \<Rightarrow> action list" where
  "batched as v = as @ flushEffects (apply_actions as v)"

fun unbatched :: "action list \<Rightarrow> search_view \<Rightarrow> action list" where
  "unbatched [] v = []"
| "unbatched (a # as) v =
     (let fx = batched [a] v in fx @ unbatched as (apply_actions fx v))"

definition in_callback :: "bool \<Rightarrow> action list \<Rightarrow> search_view \<Rightarrow> action list" where
  "in_callback batching as v = (if batching then batched as v else unbatched as v)"

text \<open>
  The whole trace of one click: the handler, the render after it and, when a fetch was
  issued, its completion with the document \<open>elems\<close> and then the chained callback.
\<close>

definition click_trace :: "bool \<Rightarrow> string \<Rightarrow> string list \<Rightarrow> search_view \<Rightarrow> action list" where
  "click_trace batching ident elems v =
     (let (now, callback) = handleSearchPanelClick ident v;
          t1 = batched now v
      in case callback of
           None \<Rightarrow> t1
         | Some later \<Rightarrow>
             (let v1 = apply_actions t1 v;
                  t2 = batched [FetchCompleted (fst (parse_id ident)) elems] v1;
                  v2 = apply_actions t2 v1
              in t1 @ t2 @ in_callback batching later v2))"






text \<open>
  A view to run concrete clicks on: document \<open>doc1\<close> is loaded and shows two elements, no
  category is selected, no scroll is pending.
\<close>

definition example_view :: search_view where
  "example_view =
     \<lparr> store = \<lparr> curDocName = ''doc1'', curCategory = None, isDocLoaded = True,
                 focusedIndex = ''0'', searchedIndex = ''0'' \<rparr>,
       isIsSearchActive = False,
       rendered = [''L0'', ''L1''] \<rparr>"

section \<open>Dataset upload (useLoadDoc)\<close>

text \<open>
  The two \<open>useState\<close> fields of the form. The field \<open>file\<close> (here \<open>selectedFile\<close>) starts as the empty string and is set
  to the first selected file, which is undefined when none is selected: \<open>None\<close> stands for
  both, \<open>Some f\<close> for a file object.
\<close>

record load_form =
  datasetName :: string
  selectedFile :: "string option"

datatype upload_action =
    Notify string
  | AddDocuments "string option" string
  | UploadCompleted
  | SetDatasetName string
  | GetDatasetsAPI

text \<open>
  The handler returns the actions it performs before it returns and, when it issued the
  upload, the actions of the callback chained to it. \<open>AddDocuments f n\<close> is the dispatch
  of the upload with form data \<open>file = f\<close>, \<open>dataset_name = n\<close>.
\<close>

definition handleLoadDoc :: "load_form \<Rightarrow> upload_action list \<times> upload_action list option" where
  "handleLoadDoc s =
     (if datasetName s = [] \<or> selectedFile s = None
      then ([Notify ''Please fill out all the required fields!''], None)
      else ([AddDocuments (selectedFile s) (datasetName s)],
            Some [SetDatasetName [], GetDatasetsAPI, Notify ''The new dataset has been created'']))"

definition load_trace :: "load_form \<Rightarrow> upload_action list" where
  "load_trace s =
     (case handleLoadDoc s of
        (now, None) \<Rightarrow> now
      | (now, Some later) \<Rightarrow> now @ [UploadCompleted] @ later)"

text \<open>Of the actions, only the setter of the name field changes the form.\<close>

fun apply_upload_action :: "upload_action \<Rightarrow> load_form \<Rightarrow> load_form" where
  "apply_upload_action (SetDatasetName n) s = s\<lparr>datasetName := n\<rparr>"
| "apply_upload_action a s = s"

fun is_upload :: "upload_action \<Rightarrow> bool" where
  "is_upload (AddDocuments f n) = True"
| "is_upload a = False"

section \<open>Category name validation\<close>

text \<open>
  Modelled from the spec: the validator of the create-category dialog, whose component is
  not part of the sources at hand (only its test is). A name is valid when it is made only
  of ASCII letters, digits, underscores and spaces; an invalid name is answered with the
  message below; the Create control is enabled for a valid non-empty name only.
\<close>

definition name_chars :: string where
  "name_chars = ''abcdefghijklmnopqrstuvwxyzABCDEFGHIJKLMNOPQRSTUVWXYZ0123456789_ ''"

definition name_error :: "string \<Rightarrow> string option" where
  "name_error name =
     (if list_all (\<lambda>c. c \<in> set name_chars) name then None
      else Some ''Name may only contain English characters, digits, underscores and spaces'')"

definition create_disabled :: "string \<Rightarrow> bool" where
  "create_disabled name = (name = [] \<or> name_error name \<noteq> None)"

section \<open>Properties of the panel controller\<close>

lemmas setter_defs =
  run_def setActivePanel_def setToggleSearchPanel_def setToggleRCMDPanel_def
  setTogglePosPredPanel_def setTogglePosElemPanel_def setToggleDisagreeElemPanel_def
  setToggleSuspiciousElemPanel_def setToggleContrElemPanel_def

lemmas activate_defs =
  activateSearchPanel_def activateRecToLabelPanel_def activatePosPredLabelPanel_def
  activatePosElemLabelPanel_def activateDisagreeElemLabelPanel_def
  activateSuspiciousElemLabelPanel_def activateContrElemLabelPanel_def

lemma visible_activate: "visible q (activate p s) = (q = p \<and> \<not> visible p s)"
  by (cases p; cases q; simp add: activate_defs setter_defs)

lemma activePanel_activate: "activePanel (activate p s) = Some p"
  by (cases p; simp add: activate_defs setter_defs)

lemma shown_activate: "shown (activate p s) = (if visible p s then [] else [p])"
  unfolding shown_def all_panels_def visible_activate by (cases p) simp_all

text \<open>
  C1. Whatever the seven flags are before the call and whichever of the seven activation
  handlers is called: afterwards the flags that are true are either exactly the called
  panel's own flag or none at all; none is true exactly when the called panel's flag was
  true before the call; and the flag of every other panel is false.
\<close>

theorem activation_mutually_exclusive:
  "(shown (activate p s) = [p] \<or> shown (activate p s) = [])
   \<and> (shown (activate p s) = [] \<longleftrightarrow> visible p s)
   \<and> (\<forall>q. q \<noteq> p \<longrightarrow> \<not> visible q (activate p s))
   \<and> visible p (activate p s) = (\<not> visible p s)"
  by (simp add: shown_activate visible_activate)

theorem activation_mutually_exclusive_witness:
  "RCMD \<noteq> SEARCH
   \<and> \<not> visible RCMD (activate SEARCH (initial_panels\<lparr>toggleRCMDPanel := True\<rparr>))
   \<and> shown (activate SEARCH (initial_panels\<lparr>toggleRCMDPanel := True\<rparr>)) = [SEARCH]"
proof -
  let ?s = "initial_panels\<lparr>toggleRCMDPanel := True\<rparr>"
  note inst = activation_mutually_exclusive [of SEARCH ?s]
  have closed: "\<not> visible SEARCH ?s"
    by (simp add: initial_panels_def)
  have differ: "RCMD \<noteq> SEARCH"
    by simp
  from inst differ have "\<not> visible RCMD (activate SEARCH ?s)"
    by blast
  moreover from inst closed have "shown (activate SEARCH ?s) = [SEARCH]"
    by blast
  ultimately show ?thesis
    using differ by blast
qed

lemma settle_fixed: "commit (settle c) = settle c"
  by (induction c rule: settle.induct) (subst (1 2) settle.simps, simp)

lemma commit_idle_hook:
  "autoDeps c = Some (elementsToLabel_length c) \<Longrightarrow>
   hook (commit c) = hook c \<and> autoDeps (commit c) = Some (elementsToLabel_length (commit c))"
  by (simp add: commit_def Let_def)

lemma settle_idle_hook:
  "autoDeps c = Some (elementsToLabel_length c) \<Longrightarrow> hook (settle c) = hook c"
proof (induction c rule: settle.induct)
  case (1 c)
  show ?case
  proof (cases "commit c = c")
    case True
    then show ?thesis by (subst settle.simps) simp
  next
    case False
    from "1.prems" have idle: "hook (commit c) = hook c"
      "autoDeps (commit c) = Some (elementsToLabel_length (commit c))"
      using commit_idle_hook by blast+
    from "1.IH" [OF False idle(2)] idle(1) False show ?thesis
      by (subst settle.simps) simp
  qed
qed

lemma hook_settle: "hook (settle c) = hook (commit c)"
proof (cases "commit c = c")
  case True
  then show ?thesis by (subst settle.simps) simp
next
  case False
  have "autoDeps (commit c) = Some (elementsToLabel_length (commit c))"
    by (simp add: commit_def Let_def)
  then have "hook (settle (commit c)) = hook (commit c)"
    by (rule settle_idle_hook)
  with False show ?thesis by (subst settle.simps) simp
qed

lemma length_settle: "elementsToLabel_length (settle c) = elementsToLabel_length c"
  by (induction c rule: settle.induct) (subst settle.simps, simp add: commit_def Let_def)

lemma hook_mount: "hook (mount n) = autoActivateEffect n initial_panels"
  by (simp add: mount_def hook_settle commit_def Let_def)

lemma fixed_autoDeps: "commit c = c \<Longrightarrow> autoDeps c = Some (elementsToLabel_length c)"
  by (metis (no_types, lifting) commit_def controller.select_convs(4))

lemma hook_requeue:
  assumes "commit c = c"
  shows "hook (handle (ElementsToLabel m) c) =
    (if m = elementsToLabel_length c then hook c else autoActivateEffect m (hook c))"
  using fixed_autoDeps [OF assms] by (simp add: hook_settle commit_def Let_def)

lemma openEffect_deps: "openEffect s = (True \<in> set (openEffectDeps s))"
  by (auto simp: openEffect_def openEffectDeps_def)

lemma commit_open_inv:
  "(\<forall>d. openDeps c = Some d \<longrightarrow> open_flag c = (True \<in> set d)) \<Longrightarrow>
   (\<forall>d. openDeps (commit c) = Some d \<longrightarrow> open_flag (commit c) = (True \<in> set d))"
  by (simp add: commit_def Let_def openEffect_deps)

lemma settle_open_inv:
  "(\<forall>d. openDeps c = Some d \<longrightarrow> open_flag c = (True \<in> set d)) \<Longrightarrow>
   (\<forall>d. openDeps (settle c) = Some d \<longrightarrow> open_flag (settle c) = (True \<in> set d))"
proof (induction c rule: settle.induct)
  case (1 c)
  show ?case
  proof (cases "commit c = c")
    case True
    with "1.prems" show ?thesis by (subst (1 2) settle.simps) simp
  next
    case False
    from "1.IH" [OF False commit_open_inv [OF "1.prems"]] False show ?thesis
      by (subst (1 2) settle.simps) simp
  qed
qed

lemma fixed_openDeps: "commit c = c \<Longrightarrow> openDeps c = Some (openEffectDeps (hook c))"
  by (metis (no_types, lifting) commit_def controller.select_convs(5))

lemma settled_open:
  assumes "\<forall>d. openDeps c = Some d \<longrightarrow> open_flag c = (True \<in> set d)"
  shows "open_flag (settle c) = openEffect (hook (settle c))"
  using settle_open_inv [OF assms] fixed_openDeps [OF settle_fixed, of c]
  by (simp add: openEffect_deps)

lemma handle_open_inv:
  "(\<forall>d. openDeps c = Some d \<longrightarrow> open_flag c = (True \<in> set d)) \<Longrightarrow>
   (\<forall>d. openDeps (handle e c) = Some d \<longrightarrow> open_flag (handle e c) = (True \<in> set d))"
  by (cases e) (simp_all add: settle_open_inv)

lemma handle_fixed: "commit (handle e c) = handle e c"
  by (cases e) (simp_all add: settle_fixed)

lemma fold_handle_inv:
  "(\<forall>d. openDeps c = Some d \<longrightarrow> open_flag c = (True \<in> set d)) \<Longrightarrow> commit c = c \<Longrightarrow>
   (\<forall>d. openDeps (fold handle evs c) = Some d \<longrightarrow> open_flag (fold handle evs c) = (True \<in> set d))
   \<and> commit (fold handle evs c) = fold handle evs c"
proof (induction evs arbitrary: c)
  case Nil
  then show ?case by simp
next
  case (Cons e evs)
  from Cons.IH [OF handle_open_inv [OF Cons.prems(1)] handle_fixed] show ?case by simp
qed

lemma mount_inv:
  "(\<forall>d. openDeps (mount n) = Some d \<longrightarrow> open_flag (mount n) = (True \<in> set d))
   \<and> commit (mount n) = mount n"
  unfolding mount_def by (rule conjI, rule settle_open_inv, simp, rule settle_fixed)

lemma session_settled: "commit (session n evs) = session n evs"
  unfolding session_def using fold_handle_inv mount_inv by blast

lemma session_open: "open_flag (session n evs) = openEffect (hook (session n evs))"
proof -
  have "\<forall>d. openDeps (session n evs) = Some d \<longrightarrow> open_flag (session n evs) = (True \<in> set d)"
    unfolding session_def using fold_handle_inv mount_inv by blast
  with fixed_openDeps [OF session_settled, of n evs] show ?thesis
    by (simp add: openEffect_deps)
qed

lemma shown_autoActivate:
  "shown (autoActivateEffect n initial_panels) = [if n = 0 then SEARCH else RCMD]
   \<and> activePanel (autoActivateEffect n initial_panels) = Some (if n = 0 then SEARCH else RCMD)"
  using shown_activate [of SEARCH initial_panels] shown_activate [of RCMD initial_panels]
    activePanel_activate [of SEARCH initial_panels] activePanel_activate [of RCMD initial_panels]
  by (simp add: autoActivateEffect_def initial_panels_def)

lemma length_mount: "elementsToLabel_length (mount n) = n"
  by (simp add: mount_def length_settle)

text \<open>
  C3, as the code has it. At mount the Search panel is activated when the queue of elements
  to label is empty and the Recommendation panel otherwise. The effect is keyed on the
  length of the queue: at any later moment a render with an unchanged length leaves the
  panels alone, and a render with a changed length runs the effect again, calling
  \<open>activateSearchPanel\<close> when the new length is zero and \<open>activateRecToLabelPanel\<close>
  otherwise.
\<close>

theorem auto_activation_keyed_on_length:
  "shown (hook (mount n)) = [if n = 0 then SEARCH else RCMD]
   \<and> activePanel (hook (mount n)) = Some (if n = 0 then SEARCH else RCMD)
   \<and> hook (handle (ElementsToLabel m) (session n evs)) =
       (if m = elementsToLabel_length (session n evs) then hook (session n evs)
        else if m = 0 then activateSearchPanel (hook (session n evs))
        else activateRecToLabelPanel (hook (session n evs)))"
  using shown_autoActivate [of n] hook_requeue [OF session_settled, of m n evs]
  by (simp add: hook_mount autoActivateEffect_def)

theorem auto_activation_keyed_on_length_witness:
  "shown (hook (mount 4)) = [RCMD]
   \<and> hook (handle (ElementsToLabel 4) (session 4 [])) = hook (session 4 [])
   \<and> hook (handle (ElementsToLabel 0) (session 4 [])) = activateSearchPanel (hook (session 4 []))"
  using auto_activation_keyed_on_length [of 4 4 "[]"] auto_activation_keyed_on_length [of 4 0 "[]"]
  by (simp add: session_def length_mount)

text \<open>
  C3 as stated fails: the auto-activation is not limited to the mount. A controller
  mounted on an empty queue shows the Search panel; when the queue then gets three
  elements, and nobody clicks, the effect runs again and the Recommendation panel replaces
  the Search panel.
\<close>

theorem auto_activation_runs_again:
  "shown (hook (mount 0)) = [SEARCH]
   \<and> shown (hook (handle (ElementsToLabel 3) (mount 0))) = [RCMD]
   \<and> activePanel (hook (handle (ElementsToLabel 3) (mount 0))) = Some RCMD"
proof -
  have settled: "commit (mount 0) = mount 0"
    using mount_inv by blast
  have at_mount: "hook (mount 0) = activateSearchPanel initial_panels"
    by (simp add: hook_mount autoActivateEffect_def)
  have later: "hook (handle (ElementsToLabel 3) (mount 0)) = activateRecToLabelPanel (hook (mount 0))"
    using hook_requeue [OF settled, of 3] by (simp add: length_mount autoActivateEffect_def)
  have opened: "visible SEARCH (hook (mount 0))"
    using visible_activate [of SEARCH SEARCH initial_panels] at_mount
    by (simp add: initial_panels_def)
  have "shown (hook (mount 0)) = [SEARCH]"
    using shown_activate [of SEARCH initial_panels] at_mount by (simp add: initial_panels_def)
  moreover have "\<not> visible RCMD (hook (mount 0))"
    using visible_activate [of RCMD SEARCH initial_panels] at_mount by simp
  then have "shown (hook (handle (ElementsToLabel 3) (mount 0))) = [RCMD]"
    using shown_activate [of RCMD "hook (mount 0)"] later by simp
  moreover have "activePanel (hook (handle (ElementsToLabel 3) (mount 0))) = Some RCMD"
    using activePanel_activate [of RCMD "hook (mount 0)"] later by simp
  ultimately show ?thesis
    by simp
qed

lemma hook_click:
  assumes "commit c = c"
  shows "hook (handle (Click p) c) = activate p (hook c)"
  using fixed_autoDeps [OF assms] by (simp add: hook_settle commit_def Let_def)

text \<open>
  C8, as the code has it. The host's \<open>open\<close> state is written by an effect, which runs
  after the render that follows an update. So at every moment of a mounted controller's
  life, that is after the mount and after every click and every change of the queue, once
  the rendering the update triggers has settled, the \<open>open\<close> state is the disjunction
  of the seven visibility flags.
\<close>

theorem open_is_any_panel_visible:
  "open_flag (session n evs) =
     (toggleSearchPanel (hook (session n evs)) \<or> toggleRCMDPanel (hook (session n evs))
      \<or> togglePosPredPanel (hook (session n evs)) \<or> togglePosElemPanel (hook (session n evs))
      \<or> toggleDisagreeElemPanel (hook (session n evs))
      \<or> toggleSuspiciousElemPanel (hook (session n evs))
      \<or> toggleContrElemPanel (hook (session n evs)))"
  by (simp add: session_open openEffect_def)

theorem open_is_any_panel_visible_witness:
  "open_flag (session 2 [Click SEARCH]) \<and> \<not> open_flag (session 0 [Click SEARCH])"
proof -
  have settled: "commit (mount n) = mount n" for n
    using mount_inv by blast
  have clicked: "hook (session n [Click SEARCH]) = activate SEARCH (autoActivateEffect n initial_panels)" for n
  proof -
    have "hook (handle (Click SEARCH) (mount n)) = activate SEARCH (hook (mount n))"
      by (rule hook_click [OF settled])
    then show ?thesis
      by (simp only: session_def fold.simps comp_apply id_apply hook_mount)
  qed
  have two: "hook (session 2 [Click SEARCH]) =
      initial_panels\<lparr>toggleSearchPanel := True, activePanel := Some SEARCH\<rparr>"
    unfolding clicked
    by (simp add: autoActivateEffect_def activate_defs setter_defs initial_panels_def)
  have zero: "hook (session 0 [Click SEARCH]) = initial_panels\<lparr>activePanel := Some SEARCH\<rparr>"
    unfolding clicked
    by (simp add: autoActivateEffect_def activate_defs setter_defs initial_panels_def)
  from open_is_any_panel_visible [of 2 "[Click SEARCH]"] open_is_any_panel_visible [of 0 "[Click SEARCH]"]
  show ?thesis
    unfolding two zero by (simp add: initial_panels_def)
qed

text \<open>
  C8 as stated fails: directly after an update the \<open>open\<close> state still has its old
  value. When the effects of the first render of a controller mounted on an empty queue
  have run, the auto-activation has opened the Search panel while \<open>open\<close> has been set
  from the flags of that render and is false; and when the Search button
  of that controller, once settled, is clicked again, all seven flags are false while
  \<open>open\<close> is still true, until the effect of the next render has run.
\<close>

theorem open_lags_behind_update:
  "shown (hook (commit \<lparr> hook = initial_panels, open_flag = False, elementsToLabel_length = 0,
      autoDeps = None, openDeps = None \<rparr>)) = [SEARCH]
   \<and> \<not> open_flag (commit \<lparr> hook = initial_panels, open_flag = False,
      elementsToLabel_length = 0, autoDeps = None, openDeps = None \<rparr>)
   \<and> shown (hook ((mount 0)\<lparr>hook := activate SEARCH (hook (mount 0))\<rparr>)) = []
   \<and> open_flag ((mount 0)\<lparr>hook := activate SEARCH (hook (mount 0))\<rparr>)"
proof -
  let ?c0 = "\<lparr> hook = initial_panels, open_flag = False, elementsToLabel_length = 0,
      autoDeps = None, openDeps = None \<rparr>"
  have first: "hook (commit ?c0) = activate SEARCH initial_panels"
    by (simp add: commit_def Let_def autoActivateEffect_def)
  have closed: "\<not> visible SEARCH initial_panels"
    by (simp add: initial_panels_def)
  have "shown (hook (commit ?c0)) = [SEARCH]"
    unfolding first using shown_activate [of SEARCH initial_panels] closed by simp
  moreover have "\<not> open_flag (commit ?c0)"
    by (simp add: commit_def Let_def openEffect_def initial_panels_def)
  moreover have at_mount: "hook (mount 0) = activate SEARCH initial_panels"
    by (simp add: hook_mount autoActivateEffect_def)
  have opened: "visible SEARCH (hook (mount 0))"
    unfolding at_mount using visible_activate [of SEARCH SEARCH initial_panels] closed by simp
  have "shown (activate SEARCH (hook (mount 0))) = []"
    using shown_activate [of SEARCH "hook (mount 0)"] opened by simp
  moreover have "open_flag (mount 0)"
    using session_open [of 0 "[]"] opened by (simp add: session_def openEffect_def)
  ultimately show ?thesis
    by simp
qed

section \<open>Properties of the search navigator\<close>

lemma lastIndexOf_ge: "- 1 \<le> lastIndexOf s c"
  by (induction s) (auto simp: Let_def)

lemma lastIndexOf_absent: "c \<notin> set s \<Longrightarrow> lastIndexOf s c = - 1"
  by (induction s) (auto simp: Let_def)

lemma lastIndexOf_present: "c \<in> set s \<Longrightarrow> 0 \<le> lastIndexOf s c"
  by (induction s) (auto simp: Let_def)

lemma lastIndexOf_last: "c \<notin> set i \<Longrightarrow> lastIndexOf (d @ c # i) c = int (length d)"
  by (induction d) (auto simp: Let_def lastIndexOf_absent)

lemma slice_prefix: "slice (d @ r) 0 (Some (int (length d))) = d"
  by (simp add: slice_def clampIndex_def Let_def)

lemma slice_suffix: "slice (d @ c # i) (int (length d) + 1) None = i"
  by (simp add: slice_def clampIndex_def Let_def nat_add_distrib)

lemma slice_all: "slice s 0 None = s"
  by (simp add: slice_def clampIndex_def Let_def)

lemma slice_butlast: "slice s 0 (Some (- 1)) = butlast s"
proof -
  have "nat (max (int (length s) - 1) 0) = length s - 1"
    by (cases s) simp_all
  then show ?thesis
    by (simp add: slice_def clampIndex_def Let_def butlast_conv_take)
qed

lemma parse_id_split: "CHR ''-'' \<notin> set i \<Longrightarrow> parse_id (d @ CHR ''-'' # i) = (d, i)"
  by (simp add: parse_id_def Let_def lastIndexOf_last slice_prefix slice_suffix)

lemma parse_id_no_separator: "CHR ''-'' \<notin> set ident \<Longrightarrow> parse_id ident = (butlast ident, ident)"
  by (simp add: parse_id_def Let_def lastIndexOf_absent slice_all slice_butlast)


lemma apply_actions_Nil [simp]: "apply_actions [] v = v"
  by (simp add: apply_actions_def)

lemma apply_actions_Cons [simp]: "apply_actions (a # as) v = apply_actions as (apply_action a v)"
  by (simp add: apply_actions_def)

lemma apply_actions_append [simp]: "apply_actions (as @ bs) v = apply_actions bs (apply_actions as v)"
  by (simp add: apply_actions_def)

lemma apply_scroll [simp]: "apply_actions (scrollIntoElementView e) v = v"
  by (simp add: scrollIntoElementView_def split: option.splits)

lemma scrollEffect_idle: "\<not> (isIsSearchActive v \<and> isDocLoaded (store v)) \<Longrightarrow> scrollEffect v = []"
  by (simp add: scrollEffect_def)

lemma flushEffects_idle: "\<not> (isIsSearchActive v \<and> isDocLoaded (store v)) \<Longrightarrow> flushEffects v = []"
  by (subst flushEffects.simps) (simp add: scrollEffect_idle)

lemma scrollEffect_armed:
  "isIsSearchActive v \<Longrightarrow> isDocLoaded (store v) \<Longrightarrow>
   scrollEffect v =
     scrollIntoElementView (getElementById v
       (''L'' @ (if category_selected (store v) then focusedIndex (store v) else searchedIndex (store v))))
     @ [SetIsSearchActive False]"
  by (simp add: scrollEffect_def Let_def)

lemma flushEffects_armed:
  assumes "isIsSearchActive v" "isDocLoaded (store v)"
  shows "flushEffects v = scrollEffect v"
proof -
  have "\<not> isIsSearchActive (apply_actions (scrollEffect v) v)"
    using assms by (simp add: scrollEffect_armed)
  then have "flushEffects (apply_actions (scrollEffect v) v) = []"
    by (simp add: flushEffects_idle)
  moreover have "scrollEffect v \<noteq> []"
    using assms by (simp add: scrollEffect_armed)
  ultimately show ?thesis
    by (subst flushEffects.simps) simp
qed

lemma handler_switch:
  assumes "parse_id ident = (docid, index)" "docid \<noteq> curDocName (store v)"
  shows "handleSearchPanelClick ident v =
    ([SetSearchedIndex index, SetIsSearchActive True]
       @ (if ''L'' @ index \<in> set (rendered v) then [ScrollIntoView (''L'' @ index)] else [])
       @ [SetIsDocLoaded False, FetchCertainDocument docid ident ''switch''],
     Some [SetFocusedState index, SetIsDocLoaded True])"
  using assms by (simp add: handleSearchPanelClick_def getElementById_def scrollIntoElementView_def)

lemma click_trace_switch:
  assumes "parse_id ident = (docid, index)" "docid \<noteq> curDocName (store v)"
  shows "click_trace batching ident elems v =
    [SetSearchedIndex index, SetIsSearchActive True]
    @ (if ''L'' @ index \<in> set (rendered v) then [ScrollIntoView (''L'' @ index)] else [])
    @ [SetIsDocLoaded False, FetchCertainDocument docid ident ''switch'',
       FetchCompleted docid elems, SetFocusedState index, SetIsDocLoaded True]
    @ (if ''L'' @ index \<in> set elems then [ScrollIntoView (''L'' @ index)] else [])
    @ [SetIsSearchActive False]"
  unfolding click_trace_def handler_switch [OF assms]
  by (simp add: batched_def in_callback_def Let_def assms flushEffects_idle flushEffects_armed
      scrollEffect_armed getElementById_def scrollIntoElementView_def)

lemma parse_example: "parse_id ''doc2-1'' = (''doc2'', ''1'')"
  using parse_id_split [of "''1''" "''doc2''"] by simp




text \<open>
  C4. On a click on a result of another document than the loaded one, the handler itself
  dispatches no focused-index update; the update is the first action of the callback
  chained to the fetch, so in the trace of the click it comes after the completion of the
  fetch, directly followed by the setting of the document-loaded flag to true, and neither
  of the two occurs before the completion.
\<close>

theorem focus_follows_fetch_completion:
  assumes "parse_id ident = (docid, index)" and "docid \<noteq> curDocName (store v)"
  shows "(\<exists>pre post. click_trace batching ident elems v =
            pre @ [FetchCertainDocument docid ident ''switch'', FetchCompleted docid elems,
                   SetFocusedState index, SetIsDocLoaded True] @ post
          \<and> (\<forall>i. SetFocusedState i \<notin> set pre) \<and> SetIsDocLoaded True \<notin> set pre
          \<and> (\<forall>i. SetFocusedState i \<notin> set post))
     \<and> (\<forall>i. SetFocusedState i \<notin> set (fst (handleSearchPanelClick ident v)))
     \<and> snd (handleSearchPanelClick ident v) = Some [SetFocusedState index, SetIsDocLoaded True]"
proof -
  let ?pre = "[SetSearchedIndex index, SetIsSearchActive True]
    @ (if ''L'' @ index \<in> set (rendered v) then [ScrollIntoView (''L'' @ index)] else [])
    @ [SetIsDocLoaded False]"
  let ?post = "(if ''L'' @ index \<in> set elems then [ScrollIntoView (''L'' @ index)] else [])
    @ [SetIsSearchActive False]"
  have "click_trace batching ident elems v =
      ?pre @ [FetchCertainDocument docid ident ''switch'', FetchCompleted docid elems,
              SetFocusedState index, SetIsDocLoaded True] @ ?post"
    by (simp add: click_trace_switch [OF assms])
  moreover have "(\<forall>i. SetFocusedState i \<notin> set ?pre) \<and> SetIsDocLoaded True \<notin> set ?pre
      \<and> (\<forall>i. SetFocusedState i \<notin> set ?post)"
    by simp
  ultimately have "\<exists>pre post. click_trace batching ident elems v =
            pre @ [FetchCertainDocument docid ident ''switch'', FetchCompleted docid elems,
                   SetFocusedState index, SetIsDocLoaded True] @ post
          \<and> (\<forall>i. SetFocusedState i \<notin> set pre) \<and> SetIsDocLoaded True \<notin> set pre
          \<and> (\<forall>i. SetFocusedState i \<notin> set post)"
    by blast
  then show ?thesis
    by (simp add: handler_switch [OF assms])
qed

theorem focus_follows_fetch_completion_witness:
  "parse_id ''doc2-1'' = (''doc2'', ''1'')
   \<and> ''doc2'' \<noteq> curDocName (store example_view)
   \<and> (\<forall>i. SetFocusedState i \<notin> set (fst (handleSearchPanelClick ''doc2-1'' example_view)))
   \<and> snd (handleSearchPanelClick ''doc2-1'' example_view)
        = Some [SetFocusedState ''1'', SetIsDocLoaded True]"
proof -
  have other: "''doc2'' \<noteq> curDocName (store example_view)"
    by (simp add: example_view_def)
  from focus_follows_fetch_completion [OF parse_example other] parse_example other
  show ?thesis by blast
qed

text \<open>
  C5. For an identifier \<open>d + "-" + i\<close> whose suffix \<open>i\<close> contains no \<open>-\<close>, the handler
  parses document id \<open>d\<close> and element index \<open>i\<close>, its first action records \<open>i\<close> as the
  searched index, and \<open>i\<close> is the searched index when the handler returns.
\<close>

theorem click_parses_at_last_separator:
  assumes "CHR ''-'' \<notin> set i"
  shows "parse_id (d @ ''-'' @ i) = (d, i)
    \<and> hd (fst (handleSearchPanelClick (d @ ''-'' @ i) v)) = SetSearchedIndex i
    \<and> searchedIndex (store (apply_actions (fst (handleSearchPanelClick (d @ ''-'' @ i) v)) v)) = i"
  using parse_id_split [OF assms, of d]
  by (simp add: handleSearchPanelClick_def Let_def)

theorem click_parses_at_last_separator_witness:
  "CHR ''-'' \<notin> set ''17''
   \<and> parse_id ''my-doc-17'' = (''my-doc'', ''17'')
   \<and> hd (fst (handleSearchPanelClick ''my-doc-17'' example_view)) = SetSearchedIndex ''17''"
proof -
  have suffix: "CHR ''-'' \<notin> set ''17''"
    by simp
  from click_parses_at_last_separator [OF suffix, of "''my-doc''" example_view] suffix
  show ?thesis by simp
qed

text \<open>
  C9. When a scroll is pending and the document is loaded, the effect looks up the element
  with id \<open>'L' + focusedIndex\<close> if a category is selected and the one with id
  \<open>'L' + searchedIndex\<close> if none is, scrolls it into view when it exists, and in both
  cases clears the pending-scroll flag.
\<close>

theorem pending_scroll_target:
  assumes "isIsSearchActive v" and "isDocLoaded (store v)"
  shows "(category_selected (store v) \<longrightarrow>
            scrollEffect v = scrollIntoElementView (getElementById v (''L'' @ focusedIndex (store v)))
              @ [SetIsSearchActive False])
    \<and> (\<not> category_selected (store v) \<longrightarrow>
            scrollEffect v = scrollIntoElementView (getElementById v (''L'' @ searchedIndex (store v)))
              @ [SetIsSearchActive False])
    \<and> \<not> isIsSearchActive (apply_actions (scrollEffect v) v)"
  using assms by (simp add: scrollEffect_armed)

theorem pending_scroll_target_witness:
  "isIsSearchActive (example_view\<lparr>isIsSearchActive := True\<rparr>)
   \<and> isDocLoaded (store (example_view\<lparr>isIsSearchActive := True\<rparr>))
   \<and> \<not> category_selected (store (example_view\<lparr>isIsSearchActive := True\<rparr>))
   \<and> scrollEffect (example_view\<lparr>isIsSearchActive := True\<rparr>)
        = [ScrollIntoView ''L0'', SetIsSearchActive False]"
proof -
  let ?v = "example_view\<lparr>isIsSearchActive := True\<rparr>"
  have armed: "isIsSearchActive ?v"
    by simp
  have loaded: "isDocLoaded (store ?v)"
    by (simp add: example_view_def)
  have none: "\<not> category_selected (store ?v)"
    by (simp add: example_view_def category_selected_def)
  have found: "scrollIntoElementView (getElementById ?v (''L'' @ searchedIndex (store ?v)))
      = [ScrollIntoView ''L0'']"
    by (simp add: example_view_def getElementById_def scrollIntoElementView_def)
  from pending_scroll_target [OF armed loaded] none found
  have "scrollEffect ?v = [ScrollIntoView ''L0'', SetIsSearchActive False]"
    by simp
  with armed loaded none show ?thesis
    by blast
qed

text \<open>
  C10. The parsing is defined on every string. For an identifier without \<open>-\<close> the
  position found is \<open>-1\<close>, the parsed document id is the identifier without its last
  character, and the parsed index is the whole identifier.
\<close>

theorem parse_without_separator:
  assumes "CHR ''-'' \<notin> set ident"
  shows "lastIndexOf ident CHR ''-'' = - 1 \<and> parse_id ident = (butlast ident, ident)"
  using assms by (simp add: lastIndexOf_absent parse_id_no_separator)

theorem parse_without_separator_witness:
  "CHR ''-'' \<notin> set ''abc'' \<and> lastIndexOf ''abc'' CHR ''-'' = - 1 \<and> parse_id ''abc'' = (''ab'', ''abc'')"
proof -
  have plain: "CHR ''-'' \<notin> set ''abc''"
    by simp
  from parse_without_separator [OF plain] plain show ?thesis
    by simp
qed

section \<open>Properties of the dataset upload\<close>

lemma handleLoadDoc_missing:
  "datasetName s = [] \<or> selectedFile s = None \<Longrightarrow>
   handleLoadDoc s = ([Notify ''Please fill out all the required fields!''], None)"
  by (simp add: handleLoadDoc_def)

lemma handleLoadDoc_filled:
  "\<not> (datasetName s = [] \<or> selectedFile s = None) \<Longrightarrow>
   handleLoadDoc s =
     ([AddDocuments (selectedFile s) (datasetName s)],
      Some [SetDatasetName [], GetDatasetsAPI, Notify ''The new dataset has been created''])"
  by (simp add: handleLoadDoc_def)

text \<open>
  C7. With the dataset name or the file missing, \<open>handleLoadDoc\<close> only shows the
  notification asking to fill out the required fields: it issues no upload and leaves the
  form as it is. With both present it issues the upload and nothing else, and the reset of
  the name field, the refresh of the dataset list and the confirmation follow the
  completion of the upload, in this order. The first notification appears exactly when a
  field is missing, and an upload is issued exactly when none is.
\<close>

theorem load_doc_requires_fields:
  "(datasetName s = [] \<or> selectedFile s = None \<longrightarrow>
      handleLoadDoc s = ([Notify ''Please fill out all the required fields!''], None)
      \<and> load_trace s = [Notify ''Please fill out all the required fields!'']
      \<and> fold apply_upload_action (load_trace s) s = s)
   \<and> (\<not> (datasetName s = [] \<or> selectedFile s = None) \<longrightarrow>
      fst (handleLoadDoc s) = [AddDocuments (selectedFile s) (datasetName s)]
      \<and> load_trace s =
          [AddDocuments (selectedFile s) (datasetName s), UploadCompleted,
           SetDatasetName [], GetDatasetsAPI, Notify ''The new dataset has been created''])
   \<and> (Notify ''Please fill out all the required fields!'' \<in> set (load_trace s)
        \<longleftrightarrow> datasetName s = [] \<or> selectedFile s = None)
   \<and> (list_ex is_upload (load_trace s) \<longleftrightarrow> \<not> (datasetName s = [] \<or> selectedFile s = None))"
proof (cases "datasetName s = [] \<or> selectedFile s = None")
  case True
  note eq = handleLoadDoc_missing [OF True]
  have "load_trace s = [Notify ''Please fill out all the required fields!'']"
    by (simp add: load_trace_def eq)
  with True eq show ?thesis
    by simp
next
  case False
  note eq = handleLoadDoc_filled [OF False]
  have "load_trace s =
      [AddDocuments (selectedFile s) (datasetName s), UploadCompleted,
       SetDatasetName [], GetDatasetsAPI, Notify ''The new dataset has been created'']"
    by (simp add: load_trace_def eq)
  with False eq show ?thesis
    by simp
qed

theorem load_doc_requires_fields_witness:
  "load_trace \<lparr>datasetName = [], selectedFile = Some ''data.csv''\<rparr>
     = [Notify ''Please fill out all the required fields!'']
   \<and> load_trace \<lparr>datasetName = ''news'', selectedFile = Some ''data.csv''\<rparr>
     = [AddDocuments (Some ''data.csv'') ''news'', UploadCompleted,
        SetDatasetName [], GetDatasetsAPI, Notify ''The new dataset has been created'']"
  using load_doc_requires_fields [of "\<lparr>datasetName = [], selectedFile = Some ''data.csv''\<rparr>"]
    load_doc_requires_fields [of "\<lparr>datasetName = ''news'', selectedFile = Some ''data.csv''\<rparr>"]
  by simp

section \<open>Properties of the category name validation\<close>

lemma create_disabled_iff:
  "create_disabled name \<longleftrightarrow> name = [] \<or> \<not> set name \<subseteq> set name_chars"
  by (auto simp: create_disabled_def name_error_def list_all_iff)

text \<open>
  C6. The Create control is enabled exactly for the non-empty names made only of ASCII
  letters, digits, underscores and spaces. It is enabled for \<open>test_category\<close>, which
  gets no message; \<open>!\<close> gets the message about the allowed characters and leaves the
  control disabled; the empty name leaves it disabled.
\<close>

theorem category_name_validation:
  "(\<not> create_disabled name \<longleftrightarrow> name \<noteq> [] \<and> set name \<subseteq> set name_chars)
   \<and> \<not> create_disabled ''test_category''
   \<and> name_error ''test_category'' = None
   \<and> name_error ''!'' =
        Some ''Name may only contain English characters, digits, underscores and spaces''
   \<and> create_disabled ''!''
   \<and> create_disabled []"
proof -
  have ok: "name_error ''test_category'' = None"
    by (simp add: name_error_def name_chars_def)
  have bad: "name_error ''!'' =
      Some ''Name may only contain English characters, digits, underscores and spaces''"
    by (simp add: name_error_def name_chars_def)
  have enabled: "\<not> create_disabled ''test_category''"
    by (simp add: create_disabled_def ok)
  have disabled: "create_disabled ''!''"
    by (simp add: create_disabled_def bad)
  have empty: "create_disabled []"
    by (simp add: create_disabled_def)
  have general: "\<not> create_disabled name \<longleftrightarrow> name \<noteq> [] \<and> set name \<subseteq> set name_chars"
    using create_disabled_iff [of name] by blast
  from general enabled ok bad disabled empty show ?thesis
    by blast
qed

theorem category_name_validation_witness:
  "set ''a b_1'' \<subseteq> set name_chars \<and> \<not> create_disabled ''a b_1''"
proof -
  have chars: "set ''a b_1'' \<subseteq> set name_chars"
    by (simp add: name_chars_def)
  from category_name_validation [of "''a b_1''"] chars show ?thesis
    by simp
qed

end
